theory Spec2Isabelle
  imports Complex_Main
begin

text \<open>
  The blood sugar tracker of \<open>project.py\<close> keeps timestamped readings in the file
  \<open>data.csv\<close>, labels each reading Low, Normal or High, and reports the statistics of a
  month. This theory embeds the four functions that carry the logic, \<open>get_state\<close>,
  \<open>load_data\<close>, \<open>save_new_reading\<close> and \<open>get_monthly_summary_data\<close>, together with
  the library functions that they call: \<open>float\<close> on text and \<open>repr\<close> of a float, the
  \<open>csv\<close> reader and writer at the level of records, \<open>datetime.strptime\<close> with the
  program's format, \<open>statistics.mean\<close>, \<open>min\<close> and \<open>max\<close>. The menu, the prompts and
  the tables that the program prints are not modelled.
\<close>

section \<open>Python values used by the tracker\<close>

text \<open>
  A Python \<open>float\<close> is either finite or one of the three special values. A finite float
  is modelled by the number it denotes; rounding to the nearest double is outside the model.
  The type is polymorphic in the finite part: a float that has been read back from the file
  carries a \<open>real\<close>, a float that is about to be written carries the decimal that
  \<open>repr\<close> prints for it (see \<open>dec\<close> below).
\<close>

datatype 'a pyfloat = Fin 'a | PInf | NInf | NaN

text \<open>Python's less-than and less-or-equal on floats: every comparison with NaN is false.\<close>

fun float_lt :: "real pyfloat \<Rightarrow> real pyfloat \<Rightarrow> bool" where
  "float_lt NaN _ = False"
| "float_lt _ NaN = False"
| "float_lt (Fin x) (Fin y) = (x < y)"
| "float_lt (Fin x) PInf = True"
| "float_lt (Fin x) NInf = False"
| "float_lt PInf _ = False"
| "float_lt NInf NInf = False"
| "float_lt NInf _ = True"

fun float_le :: "real pyfloat \<Rightarrow> real pyfloat \<Rightarrow> bool" where
  "float_le NaN _ = False"
| "float_le _ NaN = False"
| "float_le (Fin x) (Fin y) = (x \<le> y)"
| "float_le (Fin x) PInf = True"
| "float_le (Fin x) NInf = False"
| "float_le PInf PInf = True"
| "float_le PInf _ = False"
| "float_le NInf _ = True"

text \<open>A Python \<open>int\<close> compared with a float is compared by its exact value.\<close>

definition py_int :: "int \<Rightarrow> real pyfloat" where
  "py_int i = Fin (of_int i)"

section \<open>Constants\<close>

definition NORMAL_BS_MIN :: int where
  "NORMAL_BS_MIN = 70"

definition NORMAL_BS_MAX :: int where
  "NORMAL_BS_MAX = 139"

definition HEADERS :: "string list" where
  "HEADERS = [''Timestamp'', ''Blood Glucose (mg/dL)'', ''State'']"

section \<open>The classifier\<close>

text \<open>
  \<^verbatim>\<open>
  def get_state(blood_sugar_reading):
      if blood_sugar_reading < NORMAL_BS_MIN:
          return "Low"
      elif NORMAL_BS_MIN <= blood_sugar_reading <= NORMAL_BS_MAX:
          return "Normal"
      else:
          return "High"
  \<close>
\<close>

definition get_state :: "real pyfloat \<Rightarrow> string" where
  "get_state blood_sugar_reading =
     (if float_lt blood_sugar_reading (py_int NORMAL_BS_MIN) then ''Low''
      else if float_le (py_int NORMAL_BS_MIN) blood_sugar_reading
              \<and> float_le blood_sugar_reading (py_int NORMAL_BS_MAX) then ''Normal''
      else ''High'')"


section \<open>Text of numbers\<close>

text \<open>
  Strings are byte strings. Only ASCII matters for the numeric and date syntax below;
  Unicode digits and Unicode white space outside ASCII, which Python also accepts, are not
  modelled.
\<close>

definition is_digit :: "char \<Rightarrow> bool" where
  "is_digit c = (48 \<le> (of_char c :: nat) \<and> (of_char c :: nat) \<le> 57)"

definition digit_val :: "char \<Rightarrow> nat" where
  "digit_val c = of_char c - 48"

definition digit_char :: "nat \<Rightarrow> char" where
  "digit_char d = char_of (48 + d)"

text \<open>\<open>int(ds)\<close> for a string of decimal digits.\<close>

definition nat_of_digits :: "string \<Rightarrow> nat" where
  "nat_of_digits ds = foldl (\<lambda>a c. 10 * a + digit_val c) 0 ds"

text \<open>The decimal digits of a natural number, without leading zeros (\<open>"0"\<close> for zero).\<close>

fun digits_of :: "nat \<Rightarrow> string" where
  "digits_of n = (if n < 10 then [digit_char n] else digits_of (n div 10) @ [digit_char (n mod 10)])"

declare digits_of.simps [simp del]

definition pow10 :: "int \<Rightarrow> real" where
  "pow10 k = (if 0 \<le> k then 10 ^ nat k else 1 / 10 ^ nat (- k))"

subsection \<open>\<open>repr\<close> of a float\<close>

text \<open>
  CPython prints a finite float from the output of its shortest-digits conversion: a sign,
  a digit string and the position of the decimal point. \<open>Dec s m e\<close> stands for the float
  whose shortest digits are the digits of \<open>m\<close> and whose value is \<open>\<plusminus> m * 10 ^ e\<close>
  (\<open>s\<close> is true for a negative sign), so the decimal point sits \<open>e + length digits\<close> places
  after the first digit. \<open>format_digits\<close> follows the \<open>'r'\<close> format of CPython's
  \<open>format_float_short\<close>: exponent notation when the decimal point position is below
  \<open>-3\<close> or above \<open>16\<close>, with a sign and at least two digits in the exponent; otherwise
  positional notation with \<open>.0\<close> added to a whole number. The conversion gives digits
  without trailing zeros; the text printed here is right for any \<open>m\<close>.
\<close>

datatype dec = Dec bool nat int

fun dec_val :: "dec \<Rightarrow> real" where
  "dec_val (Dec s m e) = (if s then - (real m * pow10 e) else real m * pow10 e)"

definition exp_text :: "int \<Rightarrow> string" where
  "exp_text x =
     (if x < 0 then ''-'' else ''+'')
     @ (let ds = digits_of (nat \<bar>x\<bar>) in if length ds < 2 then CHR ''0'' # ds else ds)"

definition format_digits :: "string \<Rightarrow> int \<Rightarrow> string" where
  "format_digits digits decpt =
     (let n = int (length digits)
      in if decpt \<le> - 4 \<or> decpt > 16 then
           (hd digits # (if n > 1 then CHR ''.'' # tl digits else []))
           @ CHR ''e'' # exp_text (decpt - 1)
         else if decpt \<le> 0 then
           CHR ''0'' # CHR ''.'' # replicate (nat (- decpt)) (CHR ''0'') @ digits
         else if decpt < n then
           take (nat decpt) digits @ CHR ''.'' # drop (nat decpt) digits
         else digits @ replicate (nat (decpt - n)) (CHR ''0'') @ ''.0'')"

fun float_repr_fin :: "dec \<Rightarrow> string" where
  "float_repr_fin (Dec s m e) =
     (if s then ''-'' else [])
     @ format_digits (digits_of m) (e + int (length (digits_of m)))"

fun float_repr :: "dec pyfloat \<Rightarrow> string" where
  "float_repr (Fin d) = float_repr_fin d"
| "float_repr PInf = ''inf''"
| "float_repr NInf = ''-inf''"
| "float_repr NaN = ''nan''"

text \<open>The float that a written value denotes.\<close>

fun float_of_dec :: "dec pyfloat \<Rightarrow> real pyfloat" where
  "float_of_dec (Fin d) = Fin (dec_val d)"
| "float_of_dec PInf = PInf"
| "float_of_dec NInf = NInf"
| "float_of_dec NaN = NaN"

subsection \<open>\<open>float(text)\<close>\<close>

text \<open>
  Python's \<open>float\<close> on a string: ASCII white space is stripped from both ends; an
  underscore is allowed only between two digits; then an optional sign and either
  \<open>inf\<close>, \<open>infinity\<close> or \<open>nan\<close> in any letter case, or a decimal literal: digits with an
  optional fraction (at least one digit before or after the point) and an optional
  exponent. The whole string must be consumed; otherwise \<open>ValueError\<close> (\<open>None\<close> here).
  The result is the exact value of the literal.
\<close>

definition is_space :: "char \<Rightarrow> bool" where
  "is_space c = ((9 \<le> (of_char c :: nat) \<and> (of_char c :: nat) \<le> 13) \<or> (of_char c :: nat) = 32)"

definition strip :: "string \<Rightarrow> string" where
  "strip s = rev (dropWhile is_space (rev (dropWhile is_space s)))"

fun underscores_ok :: "char \<Rightarrow> string \<Rightarrow> bool" where
  "underscores_ok prev [] = (prev \<noteq> CHR ''_'')"
| "underscores_ok prev (c # cs) =
     ((if c = CHR ''_'' then is_digit prev
       else if prev = CHR ''_'' then is_digit c else True)
      \<and> underscores_ok c cs)"

definition lower :: "char \<Rightarrow> char" where
  "lower c = (if 65 \<le> (of_char c :: nat) \<and> (of_char c :: nat) \<le> 90
              then char_of ((of_char c :: nat) + 32) else c)"

definition split_sign :: "string \<Rightarrow> bool \<times> string" where
  "split_sign s =
     (case s of
        [] \<Rightarrow> (False, [])
      | c # r \<Rightarrow> if c = CHR ''-'' then (True, r)
                else if c = CHR ''+'' then (False, r) else (False, s))"

definition parse_exponent :: "string \<Rightarrow> int option" where
  "parse_exponent r =
     (case r of
        [] \<Rightarrow> Some 0
      | c # r1 \<Rightarrow>
          if c = CHR ''e'' \<or> c = CHR ''E'' then
            (case split_sign r1 of (neg, r2) \<Rightarrow>
               if r2 \<noteq> [] \<and> list_all is_digit r2
               then Some (if neg then - int (nat_of_digits r2) else int (nat_of_digits r2))
               else None)
          else None)"

definition parse_decimal :: "string \<Rightarrow> real option" where
  "parse_decimal s =
     (let ip = takeWhile is_digit s;
          r1 = dropWhile is_digit s;
          fp = (case r1 of [] \<Rightarrow> [] | c # r \<Rightarrow> if c = CHR ''.'' then takeWhile is_digit r else []);
          r2 = (case r1 of [] \<Rightarrow> [] | c # r \<Rightarrow> if c = CHR ''.'' then dropWhile is_digit r else r1)
      in if ip = [] \<and> fp = [] then None
         else (case parse_exponent r2 of
                 None \<Rightarrow> None
               | Some x \<Rightarrow> Some (real (nat_of_digits (ip @ fp)) * pow10 (x - int (length fp)))))"

definition py_float :: "string \<Rightarrow> real pyfloat option" where
  "py_float text =
     (let s = strip text
      in if \<not> underscores_ok (CHR 0x00) s then None
         else (case split_sign (filter (\<lambda>c. c \<noteq> CHR ''_'') s) of (neg, s2) \<Rightarrow>
                 if map lower s2 = ''inf'' \<or> map lower s2 = ''infinity''
                 then Some (if neg then NInf else PInf)
                 else if map lower s2 = ''nan'' then Some NaN
                 else map_option (\<lambda>v. Fin (if neg then - v else v)) (parse_decimal s2)))"

section \<open>The record store\<close>

text \<open>
  The data file is modelled at the level of the \<open>csv\<close> module: its content is the list of
  records that \<open>csv.reader\<close> yields for it, each record a list of text fields, and
  \<open>csv.writer.writerow\<close> adds one record at the end. Quoting, line ends, the encoding and
  the module's limit on the size of a field are the module's business; every record of
  the file is taken to be complete, ended by its line terminator, as the writer leaves
  it. \<open>data_file = None\<close> stands for a path that does not exist; a file of size zero is the
  file with no record, since every non-empty file yields at least one record.

  The two fault fields say what the storage does when the program opens the file:
  \<open>read_fault = Some k\<close> makes reading raise once \<open>k\<close> records have been delivered
  (\<open>k = 0\<close>: opening fails); \<open>write_fault\<close> makes opening for append raise.
\<close>

type_synonym row = "string list"

record store =
  data_file :: "row list option"
  read_fault :: "nat option"
  write_fault :: bool

text \<open>What the program prints, as events.\<close>

datatype message =
    HeaderMismatch row
  | SkippingRow row
  | LoadError
  | Saved
  | SaveError

text \<open>
  A loaded row is a Python list whose items are strings, but for the items that the
  program has replaced by a float.
\<close>

datatype cell = Str string | Flt "real pyfloat"

datatype error = TypeError | ValueError | StatisticsError

subsection \<open>\<open>load_data\<close>\<close>

text \<open>
  \<^verbatim>\<open>
  for row in reader:
      try:
          row[1] = float(row[1])
          data.append(row)
      except (ValueError, IndexError):
          print(f"Skipping malformed row: {row}")
          continue
  \<close>
  \<open>row[1]\<close> raises \<open>IndexError\<close> on a row with fewer than two fields and \<open>float\<close>
  raises \<open>ValueError\<close> on text that is not a number.
\<close>

fun read_rows :: "cell list list \<Rightarrow> message list \<Rightarrow> row list \<Rightarrow> cell list list \<times> message list" where
  "read_rows data out [] = (data, out)"
| "read_rows data out (row # rows) =
     (if length row < 2 then read_rows data (out @ [SkippingRow row]) rows
      else (case py_float (row ! 1) of
              None \<Rightarrow> read_rows data (out @ [SkippingRow row]) rows
            | Some v \<Rightarrow> read_rows (data @ [(map Str row)[1 := Flt v]]) out rows))"

text \<open>
  \<^verbatim>\<open>
  def load_data():
      data = []
      if not os.path.exists(DATA_FILE) or os.stat(DATA_FILE).st_size == 0:
          return data
      try:
          with open(DATA_FILE, mode="r", newline="", encoding="utf-8") as file:
              reader = csv.reader(file)
              header = next(reader)
              if header != HEADERS:
                  print(f"Warning: CSV header mismatch. ...")
              for row in reader: ...
          return data
      except Exception as e:
          print(f"Error loading data: {e}. Returning empty data set.")
          return []
  \<close>
  The result is the returned list together with the messages printed.
\<close>

definition header_check :: "row \<Rightarrow> message list" where
  "header_check header = (if header \<noteq> HEADERS then [HeaderMismatch header] else [])"

definition load_data :: "store \<Rightarrow> cell list list \<times> message list" where
  "load_data s =
     (case data_file s of
        None \<Rightarrow> ([], [])
      | Some [] \<Rightarrow> ([], [])
      | Some (header # rows) \<Rightarrow>
          (case read_fault s of
             None \<Rightarrow> read_rows [] (header_check header) rows
           | Some k \<Rightarrow>
               (case take k (header # rows) of
                  [] \<Rightarrow> ([], [LoadError])
                | h # delivered \<Rightarrow>
                    ([], snd (read_rows [] (header_check h) delivered) @ [LoadError]))))"

subsection \<open>\<open>save_new_reading\<close>\<close>

text \<open>
  \<^verbatim>\<open>
  def save_new_reading(blood_sugar, state, timestamp):
      file_exists = os.path.exists(DATA_FILE)
      file_is_empty = not file_exists or os.stat(DATA_FILE).st_size == 0
      try:
          with open(DATA_FILE, mode="a", newline="", encoding="utf-8") as file:
              writer = csv.writer(file)
              if file_is_empty:
                  writer.writerow(HEADERS)
              writer.writerow([timestamp, blood_sugar, state])
          print("Reading successfully saved.")
      except Exception as e:
          print(f"Error saving data: {e}")
  \<close>
  The writer turns the float into text with \<open>repr\<close>.
\<close>

definition writerow :: "row list option \<Rightarrow> row \<Rightarrow> row list option" where
  "writerow f r = (case f of None \<Rightarrow> Some [r] | Some rows \<Rightarrow> Some (rows @ [r]))"

definition save_new_reading :: "store \<Rightarrow> dec pyfloat \<Rightarrow> string \<Rightarrow> string \<Rightarrow> store \<times> message" where
  "save_new_reading s blood_sugar state timestamp =
     (let file_exists = (data_file s \<noteq> None);
          file_is_empty = (\<not> file_exists \<or> data_file s = Some [])
      in if write_fault s then (s, SaveError)
         else
           (let f1 = (if file_is_empty then writerow (data_file s) HEADERS else data_file s);
                f2 = writerow f1 [timestamp, float_repr blood_sugar, state]
            in (s\<lparr>data_file := f2\<rparr>, Saved)))"

text \<open>A sequence of calls, each given as (blood sugar, state, timestamp).\<close>

type_synonym reading = "dec pyfloat \<times> string \<times> string"

fun save_all :: "store \<Rightarrow> reading list \<Rightarrow> store" where
  "save_all s [] = s"
| "save_all s ((blood_sugar, state, timestamp) # rs) =
     save_all (fst (save_new_reading s blood_sugar state timestamp)) rs"

section \<open>Timestamps\<close>

text \<open>
  \<open>datetime.strptime(text, "%Y-%m-%d %H:%M:%S")\<close>. The format is turned into a regular
  expression, tried at the start of the text; each directive is an alternation whose
  branches are tried in order, a blank in the format is \<open>\s+\<close>. A parser gives the list
  of its possible results in the order in which the backtracking matcher finds them. The
  first match must cover the whole text, and the fields must form a date and time that
  \<open>datetime\<close> accepts; otherwise \<open>ValueError\<close> (\<open>None\<close> here).
\<close>

type_synonym 'a rx = "string \<Rightarrow> ('a \<times> string) list"

definition rx_then :: "'a rx \<Rightarrow> ('a \<Rightarrow> 'b rx) \<Rightarrow> 'b rx" where
  "rx_then p f s = concat (map (\<lambda>(a, r). f a r) (p s))"

definition rx_lit :: "char \<Rightarrow> unit rx" where
  "rx_lit c s = (case s of [] \<Rightarrow> [] | a # r \<Rightarrow> if a = c then [((), r)] else [])"

definition rx_d1 :: "(nat \<Rightarrow> bool) \<Rightarrow> nat rx" where
  "rx_d1 P s =
     (case s of
        a # r \<Rightarrow> if is_digit a \<and> P (digit_val a) then [(digit_val a, r)] else []
      | _ \<Rightarrow> [])"

definition rx_d2 :: "(nat \<Rightarrow> nat \<Rightarrow> bool) \<Rightarrow> nat rx" where
  "rx_d2 P s =
     (case s of
        a # b # r \<Rightarrow>
          if is_digit a \<and> is_digit b \<and> P (digit_val a) (digit_val b)
          then [(10 * digit_val a + digit_val b, r)] else []
      | _ \<Rightarrow> [])"

text \<open>\<open>%Y\<close>: \<open>\d\d\d\d\<close>\<close>

definition rx_Y :: "nat rx" where
  "rx_Y s =
     (case s of
        a # b # c # d # r \<Rightarrow>
          if is_digit a \<and> is_digit b \<and> is_digit c \<and> is_digit d
          then [(1000 * digit_val a + 100 * digit_val b + 10 * digit_val c + digit_val d, r)]
          else []
      | _ \<Rightarrow> [])"

text \<open>\<open>%m\<close>: \<open>1[0-2]|0[1-9]|[1-9]\<close>\<close>

definition rx_m :: "nat rx" where
  "rx_m s = rx_d2 (\<lambda>a b. a = 1 \<and> b \<le> 2) s @ rx_d2 (\<lambda>a b. a = 0 \<and> 1 \<le> b) s
            @ rx_d1 (\<lambda>a. 1 \<le> a) s"

text \<open>\<open>%d\<close>: \<open>3[0-1]|[1-2]\d|0[1-9]|[1-9]| [1-9]\<close>\<close>

definition rx_d :: "nat rx" where
  "rx_d s = rx_d2 (\<lambda>a b. a = 3 \<and> b \<le> 1) s @ rx_d2 (\<lambda>a b. 1 \<le> a \<and> a \<le> 2) s
            @ rx_d2 (\<lambda>a b. a = 0 \<and> 1 \<le> b) s @ rx_d1 (\<lambda>a. 1 \<le> a) s
            @ rx_then (rx_lit (CHR '' '')) (\<lambda>_. rx_d1 (\<lambda>a. 1 \<le> a)) s"

text \<open>\<open>%H\<close>: \<open>2[0-3]|[0-1]\d|\d\<close>\<close>

definition rx_H :: "nat rx" where
  "rx_H s = rx_d2 (\<lambda>a b. a = 2 \<and> b \<le> 3) s @ rx_d2 (\<lambda>a b. a \<le> 1) s
            @ rx_d1 (\<lambda>a. True) s"

text \<open>\<open>%M\<close>: \<open>[0-5]\d|\d\<close>\<close>

definition rx_M :: "nat rx" where
  "rx_M s = rx_d2 (\<lambda>a b. a \<le> 5) s @ rx_d1 (\<lambda>a. True) s"

text \<open>\<open>%S\<close>: \<open>6[0-1]|[0-5]\d|\d\<close>\<close>

definition rx_S :: "nat rx" where
  "rx_S s = rx_d2 (\<lambda>a b. a = 6 \<and> b \<le> 1) s @ rx_d2 (\<lambda>a b. a \<le> 5) s
            @ rx_d1 (\<lambda>a. True) s"

text \<open>\<open>\s+\<close>, greedy: the longest run of white space first, then shorter ones.\<close>

definition is_re_space :: "char \<Rightarrow> bool" where
  "is_re_space c =
     ((9 \<le> (of_char c :: nat) \<and> (of_char c :: nat) \<le> 13)
      \<or> (28 \<le> (of_char c :: nat) \<and> (of_char c :: nat) \<le> 32))"

definition rx_spaces :: "unit rx" where
  "rx_spaces s =
     map (\<lambda>k. ((), drop k s)) (rev [1 ..< Suc (length (takeWhile is_re_space s))])"

definition format_regex :: "(nat \<times> nat \<times> nat \<times> nat \<times> nat \<times> nat) rx" where
  "format_regex =
     rx_then rx_Y (\<lambda>Y. rx_then (rx_lit (CHR ''-'')) (\<lambda>_.
     rx_then rx_m (\<lambda>m. rx_then (rx_lit (CHR ''-'')) (\<lambda>_.
     rx_then rx_d (\<lambda>d. rx_then rx_spaces (\<lambda>_.
     rx_then rx_H (\<lambda>H. rx_then (rx_lit (CHR '':'')) (\<lambda>_.
     rx_then rx_M (\<lambda>M. rx_then (rx_lit (CHR '':'')) (\<lambda>_.
     rx_then rx_S (\<lambda>S r. [((Y, m, d, H, M, S), r)])))))))))))"

definition is_leap :: "nat \<Rightarrow> bool" where
  "is_leap y = (y mod 4 = 0 \<and> (y mod 100 \<noteq> 0 \<or> y mod 400 = 0))"

definition days_in_month :: "nat \<Rightarrow> nat \<Rightarrow> nat" where
  "days_in_month y m =
     (if m = 2 then (if is_leap y then 29 else 28)
      else if m = 4 \<or> m = 6 \<or> m = 9 \<or> m = 11 then 30 else 31)"

record datetime =
  year :: int
  month :: int
  day :: int
  hour :: int
  minute :: int
  second :: int

definition strptime :: "string \<Rightarrow> datetime option" where
  "strptime data_string =
     (case format_regex data_string of
        [] \<Rightarrow> None
      | ((Y, m, d, H, M, S), rest) # _ \<Rightarrow>
          if rest \<noteq> [] then None
          else if Y < 1 \<or> days_in_month Y m < d \<or> 59 < S then None
          else Some \<lparr>year = int Y, month = int m, day = int d,
                      hour = int H, minute = int M, second = int S\<rparr>)"

section \<open>The monthly summary\<close>

text \<open>
  \<open>statistics.mean\<close> of floats: \<open>StatisticsError\<close> on no data; when a special value is
  present the result is the float sum of the special values (still special after the
  division by the count); otherwise the exact mean.
\<close>

fun float_add :: "real pyfloat \<Rightarrow> real pyfloat \<Rightarrow> real pyfloat" where
  "float_add NaN _ = NaN"
| "float_add _ NaN = NaN"
| "float_add (Fin x) (Fin y) = Fin (x + y)"
| "float_add PInf NInf = NaN"
| "float_add NInf PInf = NaN"
| "float_add PInf _ = PInf"
| "float_add _ PInf = PInf"
| "float_add NInf _ = NInf"
| "float_add _ NInf = NInf"

fun is_fin :: "'a pyfloat \<Rightarrow> bool" where
  "is_fin (Fin _) = True"
| "is_fin _ = False"

fun fin_val :: "real pyfloat \<Rightarrow> real" where
  "fin_val (Fin x) = x"
| "fin_val _ = 0"

definition mean :: "real pyfloat list \<Rightarrow> error + real pyfloat" where
  "mean data =
     (if data = [] then Inl StatisticsError
      else if list_all is_fin data
      then Inr (Fin (sum_list (map fin_val data) / real (length data)))
      else Inr (foldl float_add (Fin 0) (filter (\<lambda>x. \<not> is_fin x) data)))"

text \<open>
  The built-in \<open>min\<close> and \<open>max\<close>: the first item, replaced by a later item that
  compares strictly less (greater); \<open>ValueError\<close> on an empty list.
\<close>

fun min_loop :: "real pyfloat \<Rightarrow> real pyfloat list \<Rightarrow> real pyfloat" where
  "min_loop best [] = best"
| "min_loop best (item # items) = min_loop (if float_lt item best then item else best) items"

fun max_loop :: "real pyfloat \<Rightarrow> real pyfloat list \<Rightarrow> real pyfloat" where
  "max_loop best [] = best"
| "max_loop best (item # items) = max_loop (if float_lt best item then item else best) items"

fun py_min :: "real pyfloat list \<Rightarrow> error + real pyfloat" where
  "py_min [] = Inl ValueError"
| "py_min (x # xs) = Inr (min_loop x xs)"

fun py_max :: "real pyfloat list \<Rightarrow> error + real pyfloat" where
  "py_max [] = Inl ValueError"
| "py_max (x # xs) = Inr (max_loop x xs)"

text \<open>
  \<^verbatim>\<open>
  for row in all_data:
      try:
          record_datetime = datetime.strptime(row[0], "%Y-%m-%d %H:%M:%S")
          if record_datetime.year == year and record_datetime.month == month:
              monthly_readings.append(row[1])
      except (ValueError, IndexError):
          continue
  \<close>
  \<open>strptime\<close> raises \<open>TypeError\<close>, which is not caught, on an item that is not a string.
\<close>

fun monthly_loop :: "cell list \<Rightarrow> cell list list \<Rightarrow> int \<Rightarrow> int \<Rightarrow> error + cell list" where
  "monthly_loop monthly_readings [] y m = Inr monthly_readings"
| "monthly_loop monthly_readings (row # rows) y m =
     (case row of
        [] \<Rightarrow> monthly_loop monthly_readings rows y m
      | Flt _ # _ \<Rightarrow> Inl TypeError
      | Str text # _ \<Rightarrow>
          (case strptime text of
             None \<Rightarrow> monthly_loop monthly_readings rows y m
           | Some record_datetime \<Rightarrow>
               if year record_datetime = y \<and> month record_datetime = m then
                 (if length row < 2 then monthly_loop monthly_readings rows y m
                  else monthly_loop (monthly_readings @ [row ! 1]) rows y m)
               else monthly_loop monthly_readings rows y m))"

text \<open>The statistics functions raise \<open>TypeError\<close> on an item that is not a number.\<close>

fun floats_of :: "cell list \<Rightarrow> error + real pyfloat list" where
  "floats_of [] = Inr []"
| "floats_of (Str _ # _) = Inl TypeError"
| "floats_of (Flt v # cs) = (case floats_of cs of Inl e \<Rightarrow> Inl e | Inr vs \<Rightarrow> Inr (v # vs))"

text \<open>
  \<^verbatim>\<open>
  for bs_value in monthly_readings:
      state = get_state(bs_value)
      if state == "Normal":
          normal_count += 1
      elif state == "Low":
          low_count += 1
      else:
          high_count += 1
  \<close>
\<close>

fun count_loop :: "nat \<Rightarrow> nat \<Rightarrow> nat \<Rightarrow> real pyfloat list \<Rightarrow> nat \<times> nat \<times> nat" where
  "count_loop normal_count low_count high_count [] = (normal_count, low_count, high_count)"
| "count_loop normal_count low_count high_count (bs_value # rest) =
     (let state = get_state bs_value
      in if state = ''Normal'' then count_loop (normal_count + 1) low_count high_count rest
         else if state = ''Low'' then count_loop normal_count (low_count + 1) high_count rest
         else count_loop normal_count low_count (high_count + 1) rest)"

record summary =
  avg :: "real pyfloat"
  min_bs :: "real pyfloat"
  max_bs :: "real pyfloat"
  normal_count :: nat
  low_count :: nat
  high_count :: nat
  total_readings :: nat

text \<open>The statistics of a non-empty list of readings (lines 126 to 153 of the source).\<close>

definition summary_statistics :: "real pyfloat list \<Rightarrow> error + summary" where
  "summary_statistics monthly_readings =
     (case mean monthly_readings of
        Inl e \<Rightarrow> Inl e
      | Inr avg_bs \<Rightarrow>
     (case py_min monthly_readings of
        Inl e \<Rightarrow> Inl e
      | Inr min_v \<Rightarrow>
     (case py_max monthly_readings of
        Inl e \<Rightarrow> Inl e
      | Inr max_v \<Rightarrow>
     (case count_loop 0 0 0 monthly_readings of
        (nc, lc, hc) \<Rightarrow>
          Inr \<lparr>avg = avg_bs, min_bs = min_v, max_bs = max_v,
               normal_count = nc, low_count = lc, high_count = hc,
               total_readings = length monthly_readings\<rparr>))))"

text \<open>
  \<open>get_monthly_summary_data(year, month)\<close>: \<open>None\<close> when no reading of the month is found.
  The messages that \<open>load_data\<close> prints are not part of the result.
\<close>

definition get_monthly_summary_data :: "store \<Rightarrow> int \<Rightarrow> int \<Rightarrow> error + summary option" where
  "get_monthly_summary_data s y m =
     (let all_data = fst (load_data s)
      in case monthly_loop [] all_data y m of
           Inl e \<Rightarrow> Inl e
         | Inr monthly_readings \<Rightarrow>
             if monthly_readings = [] then Inr None
             else (case floats_of monthly_readings of
                     Inl e \<Rightarrow> Inl e
                   | Inr vs \<Rightarrow> map_sum id Some (summary_statistics vs)))"

section \<open>Notions used to state the properties\<close>

text \<open>
  A record of the file is well formed when it has a value field (a second field) and the
  text of that field is a number. The row loaded from it has the float in place of the
  text and all other fields as they are.
\<close>

definition well_formed :: "row \<Rightarrow> bool" where
  "well_formed r = (2 \<le> length r \<and> py_float (r ! 1) \<noteq> None)"

definition loaded_row :: "row \<Rightarrow> cell list" where
  "loaded_row r =
     (map Str r)[1 := (case py_float (r ! 1) of Some v \<Rightarrow> Flt v | None \<Rightarrow> Str (r ! 1))]"

text \<open>The record that one call of \<open>save_new_reading\<close> writes, and the row it loads as.\<close>

fun data_row :: "reading \<Rightarrow> row" where
  "data_row (blood_sugar, state, timestamp) = [timestamp, float_repr blood_sugar, state]"

fun reading_row :: "reading \<Rightarrow> cell list" where
  "reading_row (blood_sugar, state, timestamp) =
     [Str timestamp, Flt (float_of_dec blood_sugar), Str state]"

text \<open>
  The readings of a month: of the loaded rows, in order, the values of those whose
  timestamp is a date and time of the queried year and month.
\<close>

definition in_month :: "int \<Rightarrow> int \<Rightarrow> string \<Rightarrow> bool" where
  "in_month y m text =
     (case strptime text of None \<Rightarrow> False | Some dt \<Rightarrow> year dt = y \<and> month dt = m)"

fun month_values :: "int \<Rightarrow> int \<Rightarrow> cell list list \<Rightarrow> real pyfloat list" where
  "month_values y m [] = []"
| "month_values y m ((Str text # Flt v # others) # rows) =
     (if in_month y m text then v # month_values y m rows else month_values y m rows)"
| "month_values y m (_ # rows) = month_values y m rows"

text \<open>The characters that \<open>repr\<close> of a finite float is made of.\<close>

definition float_char :: "char \<Rightarrow> bool" where
  "float_char c = (is_digit c \<or> c = CHR ''.'' \<or> c = CHR ''e'' \<or> c = CHR ''+'' \<or> c = CHR ''-'')"


text \<open>A loaded row as the summary expects it: a string, a float, then anything.\<close>

definition typed_row :: "cell list \<Rightarrow> bool" where
  "typed_row row = (case row of Str _ # Flt _ # _ \<Rightarrow> True | _ \<Rightarrow> False)"

section \<open>Example stores\<close>

text \<open>
  A store that has never been written; the two readings and the seven readings that the
  program's tests save; a file with a record of two fields; a file with a record whose
  value is no number and a record without a value; a file whose labels contradict the
  values, and its records with the labels that the classifier gives.
\<close>

definition fresh_store :: store where
  "fresh_store = \<lparr>data_file = None, read_fault = None, write_fault = False\<rparr>"

definition two_readings :: "reading list" where
  "two_readings =
     [(Fin (Dec False 95 0), ''Normal'', ''2025-01-01 10:00:00''),
      (Fin (Dec False 18 1), ''High'', ''2025-01-02 14:30:00'')]"

definition two_field_store :: store where
  "two_field_store =
     \<lparr>data_file = Some [HEADERS, [''2025-01-01 10:00:00'', ''95.0'']],
      read_fault = None, write_fault = False\<rparr>"

definition mixed_store :: store where
  "mixed_store =
     \<lparr>data_file = Some [HEADERS,
                         [''2025-01-01 10:00:00'', ''abc'', ''Normal''],
                         [''2025-01-02 10:00:00''],
                         [''2025-01-03 10:00:00'', ''96.5'', ''Normal'']],
      read_fault = None, write_fault = False\<rparr>"

definition january_readings :: "reading list" where
  "january_readings =
     [(Fin (Dec False 9 1), ''Normal'', ''2025-01-05 08:00:00''),
      (Fin (Dec False 15 1), ''High'', ''2025-01-10 12:00:00''),
      (Fin (Dec False 65 0), ''Low'', ''2025-01-15 18:00:00''),
      (Fin (Dec False 11 1), ''Normal'', ''2025-01-20 09:00:00''),
      (Fin (Dec False 14 1), ''High'', ''2025-01-25 07:00:00''),
      (Fin (Dec False 12 1), ''Normal'', ''2025-02-01 10:00:00''),
      (Fin (Dec False 8 1), ''Normal'', ''2024-12-01 10:00:00'')]"



section \<open>Properties of the classifier\<close>

lemma get_state_Fin:
  "get_state (Fin v) = (if v < 70 then ''Low'' else if v \<le> 139 then ''Normal'' else ''High'')"
  by (simp add: get_state_def py_int_def NORMAL_BS_MIN_def NORMAL_BS_MAX_def)

lemma get_state_cases:
  "get_state x = ''Low'' \<or> get_state x = ''Normal'' \<or> get_state x = ''High''"
  by (simp add: get_state_def)

text \<open>
  Claim C1. For every real value \<open>v\<close> the classifier returns Low exactly when \<open>v < 70\<close>,
  Normal exactly when \<open>70 \<le> v \<le> 139\<close> and High exactly when \<open>v > 139\<close>; the two boundary
  values 70 and 139 are Normal; the result is always one of the three labels. The
  classifier is a total function of its argument alone.
\<close>

theorem get_state_thresholds:
  fixes v :: real
  shows "(get_state (Fin v) = ''Low'' \<longleftrightarrow> v < 70)
       \<and> (get_state (Fin v) = ''Normal'' \<longleftrightarrow> 70 \<le> v \<and> v \<le> 139)
       \<and> (get_state (Fin v) = ''High'' \<longleftrightarrow> v > 139)
       \<and> get_state (Fin 70) = ''Normal''
       \<and> get_state (Fin 139) = ''Normal''
       \<and> get_state (Fin v) \<in> {''Low'', ''Normal'', ''High''}"
  by (simp add: get_state_Fin)

theorem get_state_thresholds_witness:
  "get_state (Fin 69.5) = ''Low'' \<and> get_state (Fin 100) = ''Normal''
   \<and> get_state (Fin 139.5) = ''High''"
  using get_state_thresholds [of "69.5"] get_state_thresholds [of 100]
        get_state_thresholds [of "139.5"]
  by simp

section \<open>Digits and decimal text\<close>

lemma digit_char_digit: "d < 10 \<Longrightarrow> is_digit (digit_char d)"
  by (simp add: is_digit_def digit_char_def)

lemma digit_val_digit_char: "d < 10 \<Longrightarrow> digit_val (digit_char d) = d"
  by (simp add: digit_val_def digit_char_def)

lemma digits_of_nonempty: "digits_of n \<noteq> []"
  by (subst digits_of.simps) simp

lemma digits_of_digits: "list_all is_digit (digits_of n)"
proof (induction n rule: digits_of.induct)
  case (1 n)
  show ?case
  proof (cases "n < 10")
    case True
    then show ?thesis by (subst digits_of.simps) (simp add: digit_char_digit)
  next
    case False
    with 1 show ?thesis by (subst digits_of.simps) (simp add: digit_char_digit)
  qed
qed

lemma nat_of_digits_snoc: "nat_of_digits (ds @ [c]) = 10 * nat_of_digits ds + digit_val c"
  by (simp add: nat_of_digits_def)

lemma nat_of_digits_Nil: "nat_of_digits [] = 0"
  by (simp add: nat_of_digits_def)

lemma nat_of_digits_append:
  "nat_of_digits (xs @ ys) = nat_of_digits xs * 10 ^ length ys + nat_of_digits ys"
proof (induction ys rule: rev_induct)
  case Nil
  then show ?case by (simp add: nat_of_digits_Nil)
next
  case (snoc y ys)
  have "nat_of_digits (xs @ ys @ [y]) = 10 * nat_of_digits (xs @ ys) + digit_val y"
    using nat_of_digits_snoc [of "xs @ ys" y] by simp
  with snoc show ?case by (simp add: nat_of_digits_snoc algebra_simps)
qed

lemma nat_of_digits_of: "nat_of_digits (digits_of n) = n"
proof (induction n rule: digits_of.induct)
  case (1 n)
  show ?case
  proof (cases "n < 10")
    case True
    then show ?thesis
      by (subst digits_of.simps) (simp add: nat_of_digits_def digit_val_digit_char)
  next
    case False
    with 1 show ?thesis
      by (subst digits_of.simps) (simp add: nat_of_digits_snoc digit_val_digit_char)
  qed
qed

lemma nat_of_digits_Cons:
  "nat_of_digits (c # ds) = digit_val c * 10 ^ length ds + nat_of_digits ds"
  using nat_of_digits_append [of "[c]" ds] by (simp add: nat_of_digits_def)

lemma nat_of_digits_zeros: "nat_of_digits (replicate k (CHR ''0'')) = 0"
  by (induction k) (simp_all add: nat_of_digits_Nil nat_of_digits_Cons digit_val_def)

lemma zeros_digits: "list_all is_digit (replicate k (CHR ''0''))"
  by (induction k) (simp_all add: is_digit_def)

lemma pow10_add: "pow10 (a + b) = pow10 a * pow10 b"
proof -
  have "pow10 k = 10 powi k" for k
    by (simp add: pow10_def power_int_def field_simps)
  then show ?thesis by (simp add: power_int_add)
qed

lemma pow10_nat: "real (10 ^ k) = pow10 (int k)"
  by (simp add: pow10_def)

lemma takeWhile_digits:
  assumes "list_all is_digit ds" "r = [] \<or> \<not> is_digit (hd r)"
  shows "takeWhile is_digit (ds @ r) = ds" and "dropWhile is_digit (ds @ r) = r"
proof -
  have a: "\<And>x. x \<in> set ds \<Longrightarrow> is_digit x"
    using assms(1) by (simp add: list_all_iff)
  have b: "takeWhile is_digit r = []" "dropWhile is_digit r = r"
    using assms(2) by (cases r; simp)+
  show "takeWhile is_digit (ds @ r) = ds"
    using a b by (simp add: takeWhile_append2)
  show "dropWhile is_digit (ds @ r) = r"
    using a b by (simp add: dropWhile_append2)
qed

lemma exp_text_parse: "parse_exponent (CHR ''e'' # exp_text x) = Some x"
proof -
  define ds where "ds = digits_of (nat \<bar>x\<bar>)"
  define padded where "padded = (if length ds < 2 then CHR ''0'' # ds else ds)"
  have d: "list_all is_digit ds" "ds \<noteq> []" "nat_of_digits ds = nat \<bar>x\<bar>"
    by (simp_all add: ds_def digits_of_digits digits_of_nonempty nat_of_digits_of)
  have p: "list_all is_digit padded" "padded \<noteq> []" "nat_of_digits padded = nat \<bar>x\<bar>"
    using d by (simp_all add: padded_def is_digit_def nat_of_digits_Cons digit_val_def)
  have e: "exp_text x = (if x < 0 then CHR ''-'' else CHR ''+'') # padded"
    by (simp add: exp_text_def ds_def padded_def Let_def)
  show ?thesis
    using p by (simp add: e parse_exponent_def split_sign_def)
qed

lemma parse_exponent_Nil: "parse_exponent [] = Some 0"
  by (simp add: parse_exponent_def)

text \<open>Digits, a point, digits and an exponent part.\<close>

lemma parse_decimal_point:
  assumes "list_all is_digit ip" "list_all is_digit fp" "ip \<noteq> [] \<or> fp \<noteq> []"
      and "ex = [] \<or> \<not> is_digit (hd ex)" "parse_exponent ex = Some x"
  shows "parse_decimal (ip @ CHR ''.'' # fp @ ex)
           = Some (real (nat_of_digits (ip @ fp)) * pow10 (x - int (length fp)))"
proof -
  have 1: "takeWhile is_digit (ip @ CHR ''.'' # fp @ ex) = ip"
          "dropWhile is_digit (ip @ CHR ''.'' # fp @ ex) = CHR ''.'' # fp @ ex"
    using takeWhile_digits [of ip "CHR ''.'' # fp @ ex"] assms(1)
    by (simp_all add: is_digit_def)
  have 2: "takeWhile is_digit (fp @ ex) = fp" "dropWhile is_digit (fp @ ex) = ex"
    using takeWhile_digits [of fp ex] assms(2,4) by simp_all
  show ?thesis
    using assms(3,5) by (simp add: parse_decimal_def Let_def 1 2)
qed

lemma parse_decimal_digits:
  assumes "list_all is_digit ip" "ip \<noteq> []"
  shows "parse_decimal ip = Some (real (nat_of_digits ip))"
proof -
  have 1: "takeWhile is_digit ip = ip" "dropWhile is_digit ip = []"
    using takeWhile_digits [of ip "[]"] assms(1) by simp_all
  show ?thesis
    using assms(2) by (simp add: parse_decimal_def Let_def 1 parse_exponent_Nil pow10_def)
qed

lemma parse_decimal_exp:
  assumes "list_all is_digit ip" "ip \<noteq> []"
  shows "parse_decimal (ip @ CHR ''e'' # exp_text x) = Some (real (nat_of_digits ip) * pow10 x)"
proof -
  have 1: "takeWhile is_digit (ip @ CHR ''e'' # exp_text x) = ip"
          "dropWhile is_digit (ip @ CHR ''e'' # exp_text x) = CHR ''e'' # exp_text x"
    using takeWhile_digits [of ip "CHR ''e'' # exp_text x"] assms(1)
    by (simp_all add: is_digit_def)
  show ?thesis
    using assms(2) by (simp add: parse_decimal_def Let_def 1 exp_text_parse)
qed

lemma pow10_0: "pow10 0 = 1"
  by (simp add: pow10_def)

lemma format_digits_parse:
  assumes ds: "list_all is_digit ds" "ds \<noteq> []"
  shows "parse_decimal (format_digits ds decpt)
           = Some (real (nat_of_digits ds) * pow10 (decpt - int (length ds)))"
proof -
  let ?n = "int (length ds)"
  have len: "length ds = 1 \<or> 1 < length ds"
    using ds(2) by (cases ds) auto
  consider (exp1) "decpt \<le> - 4 \<or> decpt > 16" "length ds = 1"
    | (exp) "decpt \<le> - 4 \<or> decpt > 16" "length ds > 1"
    | (small) "\<not> (decpt \<le> - 4 \<or> decpt > 16)" "decpt \<le> 0"
    | (mid) "\<not> (decpt \<le> - 4 \<or> decpt > 16)" "0 < decpt" "decpt < ?n"
    | (whole) "\<not> (decpt \<le> - 4 \<or> decpt > 16)" "0 < decpt" "?n \<le> decpt"
    using len by fastforce
  then show ?thesis
  proof cases
    case exp1
    then have "ds = [hd ds]" by (cases ds) auto
    then have f: "format_digits ds decpt = ds @ CHR ''e'' # exp_text (decpt - 1)"
      using exp1 by (simp add: format_digits_def)
    show ?thesis
      using parse_decimal_exp [OF ds, of "decpt - 1"] exp1(2) by (simp add: f)
  next
    case exp
    have hd_tl: "[hd ds] @ tl ds = ds" using ds(2) by simp
    have f: "format_digits ds decpt
               = [hd ds] @ CHR ''.'' # tl ds @ CHR ''e'' # exp_text (decpt - 1)"
      using exp by (simp add: format_digits_def)
    have "list_all is_digit [hd ds]" "list_all is_digit (tl ds)"
      using ds by (cases ds; simp)+
    then have "parse_decimal ([hd ds] @ CHR ''.'' # tl ds @ CHR ''e'' # exp_text (decpt - 1))
                 = Some (real (nat_of_digits ([hd ds] @ tl ds))
                         * pow10 (decpt - 1 - int (length (tl ds))))"
      by (intro parse_decimal_point) (simp_all add: exp_text_parse is_digit_def)
    moreover have "decpt - 1 - int (length (tl ds)) = decpt - ?n"
      using ds(2) by (cases ds) simp_all
    ultimately show ?thesis by (simp only: f hd_tl)
  next
    case small
    define k where "k = nat (- decpt)"
    have f: "format_digits ds decpt
               = [CHR ''0''] @ CHR ''.'' # (replicate k (CHR ''0'') @ ds) @ []"
      using small by (simp add: format_digits_def k_def)
    have "parse_decimal ([CHR ''0''] @ CHR ''.'' # (replicate k (CHR ''0'') @ ds) @ [])
            = Some (real (nat_of_digits ([CHR ''0''] @ (replicate k (CHR ''0'') @ ds)))
                    * pow10 (0 - int (length (replicate k (CHR ''0'') @ ds))))"
      using ds by (intro parse_decimal_point)
                  (simp_all add: parse_exponent_Nil zeros_digits is_digit_def)
    moreover have "nat_of_digits ([CHR ''0''] @ (replicate k (CHR ''0'') @ ds)) = nat_of_digits ds"
      using nat_of_digits_append [of "replicate (Suc k) (CHR ''0'')" ds]
            nat_of_digits_zeros [of "Suc k"] by simp
    moreover have "0 - int (length (replicate k (CHR ''0'') @ ds)) = decpt - ?n"
      using small by (simp add: k_def)
    ultimately show ?thesis by (simp only: f)
  next
    case mid
    define k where "k = nat decpt"
    have k: "k < length ds" "int k = decpt" using mid by (simp_all add: k_def)
    have f: "format_digits ds decpt = take k ds @ CHR ''.'' # drop k ds @ []"
      using mid by (simp add: format_digits_def k_def)
    have "list_all is_digit (take k ds)" "list_all is_digit (drop k ds)"
      using ds(1) by (auto simp: list_all_iff dest: in_set_takeD in_set_dropD)
    then have "parse_decimal (take k ds @ CHR ''.'' # drop k ds @ [])
                = Some (real (nat_of_digits (take k ds @ drop k ds))
                        * pow10 (0 - int (length (drop k ds))))"
      using k by (intro parse_decimal_point) (simp_all add: parse_exponent_Nil)
    moreover have "0 - int (length (drop k ds)) = decpt - ?n"
      using k by simp
    ultimately show ?thesis by (simp only: f append_take_drop_id)
  next
    case whole
    define j where "j = nat (decpt - ?n)"
    have j: "int j = decpt - ?n" using whole by (simp add: j_def)
    have f: "format_digits ds decpt
               = (ds @ replicate j (CHR ''0'')) @ CHR ''.'' # [CHR ''0''] @ []"
      using whole by (simp add: format_digits_def j_def)
    have "parse_decimal ((ds @ replicate j (CHR ''0'')) @ CHR ''.'' # [CHR ''0''] @ [])
            = Some (real (nat_of_digits ((ds @ replicate j (CHR ''0'')) @ [CHR ''0'']))
                    * pow10 (0 - int (length [CHR ''0''])))"
      using ds by (intro parse_decimal_point)
                  (simp_all add: parse_exponent_Nil zeros_digits is_digit_def)
    moreover have "nat_of_digits ((ds @ replicate j (CHR ''0'')) @ [CHR ''0''])
                     = nat_of_digits ds * 10 ^ Suc j"
      using nat_of_digits_append [of ds "replicate (Suc j) (CHR ''0'')"]
            nat_of_digits_zeros [of "Suc j"]
      by (simp add: replicate_append_same)
    moreover have "real (nat_of_digits ds * 10 ^ Suc j) * pow10 (0 - int (length [CHR ''0'']))
                     = real (nat_of_digits ds) * pow10 (decpt - ?n)"
    proof -
      have "pow10 (int (Suc j)) * pow10 (- 1) = pow10 (int j)"
        using pow10_add [of "int (Suc j)" "- 1"] by simp
      then show ?thesis
        by (simp add: pow10_nat [symmetric] j [symmetric] del: of_nat_Suc power_Suc)
           (simp add: pow10_def)
    qed
    ultimately show ?thesis by (simp only: f)
  qed
qed

section \<open>\<open>float\<close> reads back what \<open>repr\<close> prints\<close>

lemma exp_text_chars: "list_all float_char (exp_text x)"
  using digits_of_digits [of "nat \<bar>x\<bar>"]
  by (auto simp: exp_text_def Let_def float_char_def is_digit_def list_all_iff)

lemma format_digits_chars:
  assumes "list_all is_digit ds" "ds \<noteq> []"
  shows "list_all float_char (format_digits ds decpt)"
proof -
  have 1: "list_all float_char ds"
    using assms(1) by (simp add: list_all_iff float_char_def)
  then have 2: "list_all float_char (take k ds)" "list_all float_char (drop k ds)" for k
    by (auto simp: list_all_iff dest: in_set_takeD in_set_dropD)
  have 3: "float_char (hd ds)" "list_all float_char (tl ds)"
    using 1 assms(2) by (cases ds; simp)+
  have 4: "list_all float_char (replicate k (CHR ''0''))" for k
    by (simp add: list_all_iff float_char_def is_digit_def)
  have 5: "float_char (CHR ''.'')" "float_char (CHR ''e'')" "float_char (CHR ''0'')"
    by (simp_all add: float_char_def is_digit_def)
  show ?thesis
    using 1 2 3 4 5 exp_text_chars by (simp add: format_digits_def Let_def)
qed

lemma format_digits_hd:
  assumes "list_all is_digit ds" "ds \<noteq> []"
  shows "format_digits ds decpt \<noteq> [] \<and> is_digit (hd (format_digits ds decpt))"
proof -
  have 1: "is_digit (hd ds)" using assms by (cases ds) simp_all
  have 2: "0 < k \<Longrightarrow> take k ds \<noteq> [] \<and> hd (take k ds) = hd ds" for k
    using assms(2) by (cases ds; cases k) simp_all
  have 3: "is_digit (CHR ''0'')" by (simp add: is_digit_def)
  show ?thesis
    using 1 2 [of "nat decpt"] 3 assms(2) by (simp add: format_digits_def Let_def hd_append)
qed

lemma strip_id:
  assumes "list_all (\<lambda>c. \<not> is_space c) s"
  shows "strip s = s"
proof -
  have "dropWhile is_space s = s"
    using assms by (cases s) simp_all
  moreover have "dropWhile is_space (rev s) = rev s"
    using assms by (cases "rev s") (auto simp: list_all_iff dest: arg_cong [where f = set])
  ultimately show ?thesis by (simp add: strip_def)
qed

lemma underscores_ok_none:
  "prev \<noteq> CHR ''_'' \<Longrightarrow> list_all (\<lambda>c. c \<noteq> CHR ''_'') s \<Longrightarrow> underscores_ok prev s"
  by (induction s arbitrary: prev) simp_all

lemma float_char_plain: "float_char c \<Longrightarrow> \<not> is_space c \<and> c \<noteq> CHR ''_''"
  by (auto simp: float_char_def is_digit_def is_space_def)

lemma digit_not_word:
  assumes "s \<noteq> []" "is_digit (hd s)"
  shows "split_sign s = (False, s)"
    and "map lower s \<noteq> ''inf''" "map lower s \<noteq> ''infinity''" "map lower s \<noteq> ''nan''"
proof -
  obtain c r where s: "s = c # r" using assms(1) by (cases s) auto
  with assms(2) have c: "is_digit c" by simp
  then have "c \<noteq> CHR ''-''" "c \<noteq> CHR ''+''" "lower c = c"
    by (auto simp: is_digit_def lower_def)
  moreover have "c \<noteq> CHR ''i''" "c \<noteq> CHR ''n''"
    using c by (auto simp: is_digit_def)
  ultimately show "split_sign s = (False, s)"
    and "map lower s \<noteq> ''inf''" "map lower s \<noteq> ''infinity''" "map lower s \<noteq> ''nan''"
    by (simp_all add: s split_sign_def)
qed

lemma py_float_plain:
  assumes "list_all float_char s" "s \<noteq> []" "is_digit (hd s)"
  shows "py_float s = map_option Fin (parse_decimal s)"
    and "py_float (CHR ''-'' # s) = map_option (\<lambda>v. Fin (- v)) (parse_decimal s)"
proof -
  have plain: "list_all (\<lambda>c. \<not> is_space c) s" "list_all (\<lambda>c. c \<noteq> CHR ''_'') s"
    using assms(1) by (auto simp: list_all_iff dest: float_char_plain)
  have plain': "list_all (\<lambda>c. \<not> is_space c) (CHR ''-'' # s)"
               "list_all (\<lambda>c. c \<noteq> CHR ''_'') (CHR ''-'' # s)"
    using plain by (simp_all add: is_space_def)
  have f: "filter (\<lambda>c. c \<noteq> CHR ''_'') s = s"
    using plain(2) by (simp add: list_all_iff)
  note w = digit_not_word [OF assms(2,3)]
  show "py_float s = map_option Fin (parse_decimal s)"
    using underscores_ok_none [OF _ plain(2), of "CHR 0x00"]
    by (simp add: py_float_def strip_id [OF plain(1)] f w)
  show "py_float (CHR ''-'' # s) = map_option (\<lambda>v. Fin (- v)) (parse_decimal s)"
    using underscores_ok_none [OF _ plain'(2), of "CHR 0x00"] w(2-)
    by (simp add: py_float_def strip_id [OF plain'(1)] f split_sign_def)
qed

lemma py_float_repr_fin: "py_float (float_repr_fin d) = Some (Fin (dec_val d))"
proof (cases d)
  case (Dec s m e)
  let ?ds = "digits_of m"
  let ?body = "format_digits ?ds (e + int (length ?ds))"
  have ds: "list_all is_digit ?ds" "?ds \<noteq> []"
    by (simp_all add: digits_of_digits digits_of_nonempty)
  have v: "parse_decimal ?body = Some (real m * pow10 e)"
    using format_digits_parse [OF ds, of "e + int (length ?ds)"]
    by (simp add: nat_of_digits_of)
  note p = py_float_plain [OF format_digits_chars [OF ds] ,of "e + int (length ?ds)"]
  have h: "?body \<noteq> []" "is_digit (hd ?body)"
    using format_digits_hd [OF ds] by simp_all
  show ?thesis
    using p(1) [OF h] p(2) [OF h] by (simp add: Dec v)
qed

lemma py_float_repr: "py_float (float_repr v) = Some (float_of_dec v)"
proof (cases v)
  case (Fin d)
  then show ?thesis by (simp add: py_float_repr_fin)
next
  case PInf
  then show ?thesis
    by (simp add: py_float_def strip_def is_space_def split_sign_def lower_def)
next
  case NInf
  then show ?thesis
    by (simp add: py_float_def strip_def is_space_def split_sign_def lower_def)
next
  case NaN
  then show ?thesis
    by (simp add: py_float_def strip_def is_space_def split_sign_def lower_def)
qed

section \<open>Loading\<close>

lemma read_rows_eq:
  "read_rows data out rows =
     (data @ map loaded_row (filter well_formed rows),
      out @ map SkippingRow (filter (\<lambda>r. \<not> well_formed r) rows))"
  by (induction rows arbitrary: data out)
     (auto simp: well_formed_def loaded_row_def split: option.splits)

lemma loaded_row_shape:
  assumes "well_formed r"
  shows "\<exists>v. py_float (r ! 1) = Some v
           \<and> loaded_row r = Str (r ! 0) # Flt v # map Str (drop 2 r)"
proof -
  from assms obtain a b rest where r: "r = a # b # rest"
    by (cases r; cases "tl r") (auto simp: well_formed_def)
  with assms obtain v where "py_float b = Some v"
    by (auto simp: well_formed_def)
  with r show ?thesis by (simp add: loaded_row_def)
qed

lemma load_data_ok:
  assumes "data_file s = Some (header # rows)" "read_fault s = None"
  shows "load_data s = (map loaded_row (filter well_formed rows),
                        header_check header @ map SkippingRow (filter (\<lambda>r. \<not> well_formed r) rows))"
  using assms by (simp add: load_data_def read_rows_eq)

lemma load_data_fault:
  assumes "data_file s = Some (header # rows)" "read_fault s = Some k"
  shows "fst (load_data s) = [] \<and> snd (load_data s) \<noteq> [] \<and> last (snd (load_data s)) = LoadError"
  using assms by (simp add: load_data_def split: list.splits)

lemma load_data_absent:
  assumes "data_file s = None \<or> data_file s = Some []"
  shows "load_data s = ([], [])"
  using assms by (auto simp: load_data_def)

section \<open>Saving\<close>

lemma save_data_file:
  assumes "\<not> write_fault s"
  shows "data_file (fst (save_new_reading s v st ts))
           = Some ((case data_file s of None \<Rightarrow> [HEADERS] | Some [] \<Rightarrow> [HEADERS] | Some (h # rows) \<Rightarrow> h # rows)
                   @ [data_row (v, st, ts)])"
  using assms
  by (auto simp: save_new_reading_def writerow_def Let_def split: option.splits list.splits)

lemma save_faults:
  "read_fault (fst (save_new_reading s v st ts)) = read_fault s"
  "write_fault (fst (save_new_reading s v st ts)) = write_fault s"
  by (simp_all add: save_new_reading_def Let_def)

lemma save_message:
  "snd (save_new_reading s v st ts) = (if write_fault s then SaveError else Saved)"
  by (simp add: save_new_reading_def Let_def)

lemma save_all_faults:
  "read_fault (save_all s rs) = read_fault s \<and> write_fault (save_all s rs) = write_fault s"
  by (induction s rs rule: save_all.induct) (simp_all add: save_faults)

lemma save_all_nonempty:
  assumes "data_file s = Some (h # rows)" "\<not> write_fault s"
  shows "data_file (save_all s rs) = Some (h # rows @ map data_row rs)"
  using assms
proof (induction s rs arbitrary: rows rule: save_all.induct)
  case (1 s)
  then show ?case by simp
next
  case (2 s blood_sugar state timestamp rs)
  let ?s' = "fst (save_new_reading s blood_sugar state timestamp)"
  have "data_file ?s' = Some (h # rows @ [data_row (blood_sugar, state, timestamp)])"
    using 2(2,3) by (simp add: save_data_file)
  moreover have "\<not> write_fault ?s'" using 2(3) by (simp add: save_faults)
  ultimately have "data_file (save_all ?s' rs)
      = Some (h # (rows @ [data_row (blood_sugar, state, timestamp)]) @ map data_row rs)"
    by (rule "2.IH")
  then show ?case by simp
qed

lemma save_all_fresh:
  assumes "data_file s = None \<or> data_file s = Some []" "\<not> write_fault s"
  shows "data_file (save_all s (r # rs)) = Some (HEADERS # map data_row (r # rs))"
proof -
  obtain v st ts where r: "r = (v, st, ts)" by (cases r) auto
  let ?s' = "fst (save_new_reading s v st ts)"
  have "data_file ?s' = Some (HEADERS # [data_row r])"
    using assms save_data_file [of s v st ts] by (auto simp: r)
  moreover have "\<not> write_fault ?s'" using assms(2) by (simp add: save_faults)
  ultimately have "data_file (save_all ?s' rs) = Some (HEADERS # [data_row r] @ map data_row rs)"
    by (rule save_all_nonempty)
  then show ?thesis by (simp add: r)
qed

lemma data_row_loads:
  "well_formed (data_row r)" "loaded_row (data_row r) = reading_row r"
  by (cases r; simp add: well_formed_def loaded_row_def py_float_repr)+

lemma load_data_rows:
  "map loaded_row (filter well_formed (map data_row rs)) = map reading_row rs"
  by (induction rs) (simp_all add: data_row_loads)

lemma header_is_no_number: "py_float ''Blood Glucose (mg/dL)'' = None"
  by (simp add: py_float_def strip_def is_space_def split_sign_def lower_def
                parse_decimal_def is_digit_def)

lemma data_row_not_header: "data_row r \<noteq> HEADERS"
proof
  assume "data_row r = HEADERS"
  then have "data_row r ! 1 = HEADERS ! 1" by simp
  then have "py_float (data_row r ! 1) = py_float (HEADERS ! 1)" by simp
  then show False
    by (cases r) (simp add: HEADERS_def py_float_repr header_is_no_number)
qed

lemma roundtrip_general:
  assumes "read_fault s = None" "\<not> write_fault s"
  shows "fst (load_data (save_all s rs)) = fst (load_data s) @ map reading_row rs"
proof (cases "data_file s = None \<or> data_file s = Some []")
  case True
  then have e: "fst (load_data s) = []" by (simp add: load_data_absent)
  show ?thesis
  proof (cases rs)
    case Nil
    then show ?thesis by simp
  next
    case (Cons r rs')
    have "data_file (save_all s rs) = Some (HEADERS # map data_row rs)"
      using save_all_fresh [OF True assms(2)] by (simp add: Cons)
    moreover have "read_fault (save_all s rs) = None"
      using assms(1) by (simp add: save_all_faults)
    ultimately have "fst (load_data (save_all s rs))
                       = map loaded_row (filter well_formed (map data_row rs))"
      by (simp add: load_data_ok)
    then show ?thesis by (simp add: e load_data_rows)
  qed
next
  case False
  then obtain h rows where f: "data_file s = Some (h # rows)"
    by (cases "data_file s"; cases "the (data_file s)") auto
  have "data_file (save_all s rs) = Some (h # rows @ map data_row rs)"
    using f assms(2) by (rule save_all_nonempty)
  moreover have "read_fault (save_all s rs) = None"
    using assms(1) by (simp add: save_all_faults)
  ultimately have "fst (load_data (save_all s rs))
       = map loaded_row (filter well_formed rows) @ map loaded_row (filter well_formed (map data_row rs))"
    by (simp add: load_data_ok)
  moreover have "fst (load_data s) = map loaded_row (filter well_formed rows)"
    using f assms(1) by (simp add: load_data_ok)
  ultimately show ?thesis by (simp add: load_data_rows)
qed

section \<open>Round trip and layout of the file\<close>

lemma save_all_built:
  assumes "data_file s = None \<or> data_file s = Some []" and "\<not> write_fault s"
  shows "data_file (save_all s rs) = (if rs = [] then data_file s else Some (HEADERS # map data_row rs))"
  using save_all_fresh [OF assms] by (cases rs) simp_all

lemma no_header_among_data_rows: "HEADERS \<notin> set (map data_row rs)"
proof -
  have "HEADERS \<noteq> data_row x" for x
    using data_row_not_header [of x] by (rule not_sym)
  then show ?thesis by (auto simp del: data_row.simps)
qed

lemma data_rows_well_formed: "filter (\<lambda>r. \<not> well_formed r) (map data_row rs) = []"
  by (induction rs) (simp_all add: data_row_loads)

text \<open>
  Claim C2. Round trip: after any sequence of calls of \<open>save_new_reading\<close> on a store that
  did not exist or was empty, without storage faults, \<open>load_data\<close> returns exactly the
  appended readings, one row per call and in the order of the calls, and prints nothing.
  In each row the timestamp and the label are the appended texts and the value is the
  float that was appended (for a finite float, the same number).
\<close>

theorem save_load_roundtrip:
  assumes "data_file s = None \<or> data_file s = Some []"
      and "read_fault s = None" and "\<not> write_fault s"
  shows "fst (load_data (save_all s rs)) = map reading_row rs
       \<and> length (fst (load_data (save_all s rs))) = length rs
       \<and> snd (load_data (save_all s rs)) = []"
proof (cases rs)
  case Nil
  then show ?thesis using assms(1) by (simp add: load_data_absent)
next
  case (Cons r rs')
  have "data_file (save_all s rs) = Some (HEADERS # map data_row rs)"
    using save_all_built [OF assms(1,3), of rs] by (simp add: Cons)
  moreover have "read_fault (save_all s rs) = None"
    using assms(2) by (simp add: save_all_faults)
  ultimately have "load_data (save_all s rs)
      = (map loaded_row (filter well_formed (map data_row rs)),
         header_check HEADERS @ map SkippingRow (filter (\<lambda>r. \<not> well_formed r) (map data_row rs)))"
    by (rule load_data_ok)
  then show ?thesis
    by (simp add: load_data_rows data_rows_well_formed header_check_def)
qed

theorem save_load_roundtrip_witness:
  "fst (load_data (save_all fresh_store two_readings))
     = [[Str ''2025-01-01 10:00:00'', Flt (Fin 95), Str ''Normal''],
        [Str ''2025-01-02 14:30:00'', Flt (Fin 180), Str ''High'']]"
proof -
  have "data_file fresh_store = None \<or> data_file fresh_store = Some []"
       "read_fault fresh_store = None" "\<not> write_fault fresh_store"
    by (simp_all add: fresh_store_def)
  from save_load_roundtrip [OF this, of two_readings]
  show ?thesis by (simp add: two_readings_def pow10_def)
qed

text \<open>
  Claim C7. Without write faults, after \<open>N\<close> calls of \<open>save_new_reading\<close> on a store that
  did not exist or was empty the file is the header record \<open>HEADERS\<close> followed by the
  \<open>N\<close> data records of the calls (with no call the store is as it was). No data record
  is a header, so the header stands exactly once. One more call adds its data record at
  the end and nothing else, and reports success: the header is only written by the call
  that finds no file or an empty one.
\<close>

theorem append_header_once:
  assumes "data_file s = None \<or> data_file s = Some []" and "\<not> write_fault s"
  shows "data_file (save_all s rs)
           = (if rs = [] then data_file s else Some (HEADERS # map data_row rs))
       \<and> HEADERS = [''Timestamp'', ''Blood Glucose (mg/dL)'', ''State'']
       \<and> HEADERS \<notin> set (map data_row rs)
       \<and> length (map data_row rs) = length rs
       \<and> data_file (fst (save_new_reading (save_all s rs) v st ts))
           = Some (HEADERS # map data_row rs @ [data_row (v, st, ts)])
       \<and> snd (save_new_reading (save_all s rs) v st ts) = Saved"
proof -
  note built = save_all_built [OF assms, of rs]
  have w: "\<not> write_fault (save_all s rs)"
    using assms(2) by (simp add: save_all_faults)
  have "data_file (fst (save_new_reading (save_all s rs) v st ts))
          = Some (HEADERS # map data_row rs @ [data_row (v, st, ts)])"
    unfolding save_data_file [OF w] built
    using assms(1) by (cases rs) (auto simp del: data_row.simps)
  with built w no_header_among_data_rows [of rs] show ?thesis
    by (simp add: save_message HEADERS_def del: data_row.simps set_map)
qed

theorem append_header_once_witness:
  "data_file (save_all fresh_store two_readings)
     = Some [[''Timestamp'', ''Blood Glucose (mg/dL)'', ''State''],
             [''2025-01-01 10:00:00'', ''95.0'', ''Normal''],
             [''2025-01-02 14:30:00'', ''180.0'', ''High'']]"
proof -
  have "data_file fresh_store = None \<or> data_file fresh_store = Some []"
       "\<not> write_fault fresh_store"
    by (simp_all add: fresh_store_def)
  from append_header_once [OF this, of two_readings]
  have "data_file (save_all fresh_store two_readings)
               = Some (HEADERS # map data_row two_readings)"
    by (simp add: two_readings_def)
  moreover have "digits_of 95 = ''95''" "digits_of 18 = ''18''"
    by code_simp+
  ultimately show ?thesis
    by (simp add: two_readings_def HEADERS_def format_digits_def)
qed


section \<open>Tolerant loading\<close>

lemma py_float_95: "py_float ''95.0'' = Some (Fin 95)"
  by (simp add: py_float_def strip_def is_space_def split_sign_def lower_def parse_decimal_def
        is_digit_def parse_exponent_def nat_of_digits_def digit_val_def pow10_def)

lemma py_float_96_5: "py_float ''96.5'' = Some (Fin 96.5)"
  by (simp add: py_float_def strip_def is_space_def split_sign_def lower_def parse_decimal_def
        is_digit_def parse_exponent_def nat_of_digits_def digit_val_def pow10_def)

lemma py_float_abc: "py_float ''abc'' = None"
  by (simp add: py_float_def strip_def is_space_def split_sign_def lower_def parse_decimal_def
        is_digit_def)

text \<open>
  Claim C4 has every record with fewer than the three fields of the schema skipped. A
  record with two fields whose second field is a number is not skipped: \<open>load_data\<close>
  returns it.
\<close>

theorem two_field_row_is_loaded:
  "length [''2025-01-01 10:00:00'', ''95.0''] < 3
   \<and> fst (load_data two_field_store) = [[Str ''2025-01-01 10:00:00'', Flt (Fin 95)]]"
  by (simp add: two_field_store_def load_data_def py_float_95)

text \<open>
  Claim C4, amended. When no storage fault occurs, \<open>load_data\<close> skips every data record
  whose value field is not a number and every data record with fewer than two fields (no
  value field), one message per skipped record, and goes on with the records that follow:
  it returns exactly the well-formed records, in file order, each with the float in place
  of the value text. Removing a malformed record changes nothing in the result.
\<close>

theorem load_skips_malformed_rows:
  assumes "data_file s = Some (header # rows)" and "read_fault s = None"
  shows "fst (load_data s) = map loaded_row (filter well_formed rows)
       \<and> snd (load_data s) = header_check header
                              @ map SkippingRow (filter (\<lambda>r. \<not> well_formed r) rows)
       \<and> (rows = before @ bad # after \<and> \<not> well_formed bad
            \<longrightarrow> fst (load_data s) = map loaded_row (filter well_formed before)
                                  @ map loaded_row (filter well_formed after))"
  using assms by (auto simp: load_data_ok)

theorem load_skips_malformed_rows_witness:
  "fst (load_data mixed_store) = [[Str ''2025-01-03 10:00:00'', Flt (Fin 96.5), Str ''Normal'']]
   \<and> snd (load_data mixed_store)
       = [SkippingRow [''2025-01-01 10:00:00'', ''abc'', ''Normal''],
          SkippingRow [''2025-01-02 10:00:00'']]"
proof -
  have "data_file mixed_store
          = Some (HEADERS # [[''2025-01-01 10:00:00'', ''abc'', ''Normal''],
                             [''2025-01-02 10:00:00''],
                             [''2025-01-03 10:00:00'', ''96.5'', ''Normal'']])"
       "read_fault mixed_store = None"
    by (simp_all add: mixed_store_def)
  from load_skips_malformed_rows [OF this]
  show ?thesis
    by (simp add: well_formed_def loaded_row_def header_check_def py_float_abc py_float_96_5)
qed

text \<open>
  Claim C8. On a store that does not exist or is empty \<open>load_data\<close> returns the empty
  list and prints nothing. When reading a non-empty store raises, after any number of
  records, \<open>load_data\<close> returns the empty list and its last message is the load error.
  \<open>load_data\<close> returns a list in every case.
\<close>

theorem load_data_degrades_to_empty:
  "(data_file s = None \<or> data_file s = Some [] \<longrightarrow> load_data s = ([], []))
   \<and> (data_file s = Some (header # rows) \<and> read_fault s = Some k
        \<longrightarrow> fst (load_data s) = [] \<and> snd (load_data s) \<noteq> []
            \<and> last (snd (load_data s)) = LoadError)"
  using load_data_absent [of s] load_data_fault [of s header rows k] by blast

theorem load_data_degrades_to_empty_witness:
  "load_data fresh_store = ([], [])
   \<and> fst (load_data (two_field_store\<lparr>read_fault := Some 1\<rparr>)) = []
   \<and> last (snd (load_data (two_field_store\<lparr>read_fault := Some 1\<rparr>))) = LoadError"
proof -
  have "data_file fresh_store = None" by (simp add: fresh_store_def)
  then have "load_data fresh_store = ([], [])"
    using load_data_degrades_to_empty [of fresh_store] by blast
  moreover have "data_file (two_field_store\<lparr>read_fault := Some 1\<rparr>)
                   = Some (HEADERS # [[''2025-01-01 10:00:00'', ''95.0'']])
                 \<and> read_fault (two_field_store\<lparr>read_fault := Some 1\<rparr>) = Some 1"
    by (simp add: two_field_store_def)
  then have "fst (load_data (two_field_store\<lparr>read_fault := Some 1\<rparr>)) = []
           \<and> last (snd (load_data (two_field_store\<lparr>read_fault := Some 1\<rparr>))) = LoadError"
    using load_data_degrades_to_empty
            [of "two_field_store\<lparr>read_fault := Some 1\<rparr>" HEADERS
                "[[''2025-01-01 10:00:00'', ''95.0'']]" 1]
    by blast
  ultimately show ?thesis by simp
qed

lemma loaded_rows_origin:
  assumes "row \<in> set (fst (load_data s))"
  shows "\<exists>header rows r. data_file s = Some (header # rows) \<and> r \<in> set rows
            \<and> well_formed r \<and> row = loaded_row r"
proof (cases "data_file s = None \<or> data_file s = Some []")
  case True
  with assms show ?thesis by (simp add: load_data_absent)
next
  case False
  then obtain h rows where f: "data_file s = Some (h # rows)"
    by (cases "data_file s"; cases "the (data_file s)") auto
  show ?thesis
  proof (cases "read_fault s")
    case None
    with f assms show ?thesis by (auto simp: load_data_ok)
  next
    case (Some k)
    with f assms show ?thesis by (simp add: load_data_fault)
  qed
qed

text \<open>
  Claim C10. Every row that \<open>load_data\<close> returns comes from a data record of the file
  with at least two fields whose second field \<open>float\<close> accepts; the row has at least two
  items and the item at index 1 is that float, whatever the store holds.
\<close>

theorem loaded_value_is_float:
  assumes "row \<in> set (fst (load_data s))"
  shows "\<exists>header rows r v. data_file s = Some (header # rows) \<and> r \<in> set rows
            \<and> 2 \<le> length r \<and> py_float (r ! 1) = Some v
            \<and> row = (map Str r)[1 := Flt v]
            \<and> 2 \<le> length row \<and> row ! 1 = Flt v"
proof -
  from loaded_rows_origin [OF assms] obtain header rows r
    where r: "data_file s = Some (header # rows)" "r \<in> set rows" "well_formed r"
             "row = loaded_row r"
    by blast
  from r(3) obtain v where v: "py_float (r ! 1) = Some v" and len: "2 \<le> length r"
    by (auto simp: well_formed_def)
  have row: "row = (map Str r)[1 := Flt v]"
    using v by (simp add: r(4) loaded_row_def)
  then have "2 \<le> length row" "row ! 1 = Flt v"
    using len by simp_all
  with r(1,2) v len row show ?thesis by blast
qed

theorem loaded_value_is_float_witness:
  "[Str ''2025-01-01 10:00:00'', Flt (Fin 95)] \<in> set (fst (load_data two_field_store))
   \<and> (\<exists>v. [Str ''2025-01-01 10:00:00'', Flt (Fin 95)] ! 1 = Flt v)"
proof -
  have m: "[Str ''2025-01-01 10:00:00'', Flt (Fin 95)] \<in> set (fst (load_data two_field_store))"
    by (simp add: two_field_store_def load_data_def py_float_95)
  from loaded_value_is_float [OF m] have "\<exists>v. [Str ''2025-01-01 10:00:00'', Flt (Fin 95)] ! 1 = Flt v"
    by blast
  with m show ?thesis by blast
qed


section \<open>The monthly summary\<close>

lemma typed_rowE:
  assumes "typed_row row"
  obtains t v rest where "row = Str t # Flt v # rest"
  using assms by (auto simp: typed_row_def split: list.splits cell.splits)

lemma loaded_row_typed: "well_formed r \<Longrightarrow> typed_row (loaded_row r)"
  using loaded_row_shape [of r] by (auto simp: typed_row_def)

lemma load_data_typed: "list_all typed_row (fst (load_data s))"
proof -
  have "typed_row row" if "row \<in> set (fst (load_data s))" for row
    using loaded_rows_origin [OF that] by (auto simp: loaded_row_typed)
  then show ?thesis by (simp add: list_all_iff)
qed

lemma monthly_loop_typed:
  assumes "list_all typed_row rows"
  shows "monthly_loop acc rows y m = Inr (acc @ map Flt (month_values y m rows))"
  using assms
proof (induction rows arbitrary: acc)
  case Nil
  then show ?case by simp
next
  case (Cons row rows)
  then obtain t v rest where row: "row = Str t # Flt v # rest"
    by (auto elim: typed_rowE)
  from Cons have IH: "monthly_loop acc' rows y m = Inr (acc' @ map Flt (month_values y m rows))"
    for acc' by simp
  show ?case
    by (simp add: row IH in_month_def split: option.splits)
qed

lemma floats_of_Flt: "floats_of (map Flt vs) = Inr vs"
  by (induction vs) simp_all

lemma summary_by_month_values:
  "get_monthly_summary_data s y m =
     (if month_values y m (fst (load_data s)) = [] then Inr None
      else map_sum id Some (summary_statistics (month_values y m (fst (load_data s)))))"
  by (simp add: get_monthly_summary_data_def Let_def
        monthly_loop_typed [OF load_data_typed] floats_of_Flt)

lemma count_loop_counts:
  "count_loop n l h vs =
     (n + length (filter (\<lambda>v. get_state v = ''Normal'') vs),
      l + length (filter (\<lambda>v. get_state v = ''Low'') vs),
      h + length (filter (\<lambda>v. get_state v = ''High'') vs))"
proof (induction vs arbitrary: n l h)
  case Nil
  then show ?case by simp
next
  case (Cons v vs)
  show ?case
    using get_state_cases [of v] by (auto simp: Cons Let_def)
qed

lemma count_loop_total:
  assumes "count_loop n l h vs = (n', l', h')"
  shows "n' + l' + h' = n + l + h + length vs"
  using assms
proof (induction vs arbitrary: n l h)
  case Nil
  then show ?case by simp
next
  case (Cons v vs)
  then show ?case by (auto simp: Let_def split: if_splits dest: Cons.IH)
qed

lemma summary_statistics_nonempty:
  assumes "vs \<noteq> []"
  shows "\<exists>sm. summary_statistics vs = Inr sm
           \<and> normal_count sm + low_count sm + high_count sm = total_readings sm
           \<and> total_readings sm = length vs
           \<and> normal_count sm = length (filter (\<lambda>v. get_state v = ''Normal'') vs)
           \<and> low_count sm = length (filter (\<lambda>v. get_state v = ''Low'') vs)
           \<and> high_count sm = length (filter (\<lambda>v. get_state v = ''High'') vs)"
proof -
  obtain v vs' where vs: "vs = v # vs'" using assms by (cases vs) auto
  obtain a where a: "mean vs = Inr a"
    using assms by (cases "list_all is_fin vs") (simp_all add: mean_def)
  obtain n l h where c: "count_loop 0 0 0 vs = (n, l, h)"
    by (cases "count_loop 0 0 0 vs") auto
  from count_loop_total [OF c] have t: "n + l + h = length vs" by simp
  from c have k: "n = length (filter (\<lambda>v. get_state v = ''Normal'') vs)"
                 "l = length (filter (\<lambda>v. get_state v = ''Low'') vs)"
                 "h = length (filter (\<lambda>v. get_state v = ''High'') vs)"
    by (simp_all add: count_loop_counts)
  have "summary_statistics vs = Inr \<lparr>avg = a, min_bs = min_loop v vs', max_bs = max_loop v vs',
                             normal_count = n, low_count = l, high_count = h,
                             total_readings = length vs\<rparr>"
    using a c by (simp add: summary_statistics_def) (simp add: vs)
  with t k show ?thesis by simp
qed


lemma january_loaded:
  "fst (load_data (save_all fresh_store january_readings)) =
     [[Str ''2025-01-05 08:00:00'', Flt (Fin 90), Str ''Normal''],
      [Str ''2025-01-10 12:00:00'', Flt (Fin 150), Str ''High''],
      [Str ''2025-01-15 18:00:00'', Flt (Fin 65), Str ''Low''],
      [Str ''2025-01-20 09:00:00'', Flt (Fin 110), Str ''Normal''],
      [Str ''2025-01-25 07:00:00'', Flt (Fin 140), Str ''High''],
      [Str ''2025-02-01 10:00:00'', Flt (Fin 120), Str ''Normal''],
      [Str ''2024-12-01 10:00:00'', Flt (Fin 80), Str ''Normal'']]"
proof -
  have "read_fault fresh_store = None" "\<not> write_fault fresh_store"
    by (simp_all add: fresh_store_def)
  from roundtrip_general [OF this, of january_readings]
  have "fst (load_data (save_all fresh_store january_readings)) = map reading_row january_readings"
    by (simp add: load_data_absent fresh_store_def)
  then show ?thesis by (simp add: january_readings_def pow10_def)
qed

lemma january_dates:
  "in_month 2025 1 ''2025-01-05 08:00:00''" "in_month 2025 1 ''2025-01-10 12:00:00''"
  "in_month 2025 1 ''2025-01-15 18:00:00''" "in_month 2025 1 ''2025-01-20 09:00:00''"
  "in_month 2025 1 ''2025-01-25 07:00:00''" "\<not> in_month 2025 1 ''2025-02-01 10:00:00''"
  "\<not> in_month 2025 1 ''2024-12-01 10:00:00''"
  by code_simp+

lemma march_dates:
  "\<not> in_month 2025 3 ''2025-01-05 08:00:00''" "\<not> in_month 2025 3 ''2025-01-10 12:00:00''"
  "\<not> in_month 2025 3 ''2025-01-15 18:00:00''" "\<not> in_month 2025 3 ''2025-01-20 09:00:00''"
  "\<not> in_month 2025 3 ''2025-01-25 07:00:00''" "\<not> in_month 2025 3 ''2025-02-01 10:00:00''"
  "\<not> in_month 2025 3 ''2024-12-01 10:00:00''"
  by code_simp+

lemma february_dates:
  "\<not> in_month 2025 2 ''2025-01-05 08:00:00''" "\<not> in_month 2025 2 ''2025-01-10 12:00:00''"
  "\<not> in_month 2025 2 ''2025-01-15 18:00:00''" "\<not> in_month 2025 2 ''2025-01-20 09:00:00''"
  "\<not> in_month 2025 2 ''2025-01-25 07:00:00''" "in_month 2025 2 ''2025-02-01 10:00:00''"
  "\<not> in_month 2025 2 ''2024-12-01 10:00:00''"
  by code_simp+

lemma january_values:
  "month_values 2025 1 (fst (load_data (save_all fresh_store january_readings)))
     = [Fin 90, Fin 150, Fin 65, Fin 110, Fin 140]"
  by (simp add: january_loaded january_dates)

lemma february_values:
  "month_values 2025 2 (fst (load_data (save_all fresh_store january_readings))) = [Fin 120]"
  by (simp add: january_loaded february_dates)

lemma march_values:
  "month_values 2025 3 (fst (load_data (save_all fresh_store january_readings))) = []"
  by (simp add: january_loaded march_dates)

lemma january_statistics:
  "summary_statistics [Fin 90, Fin 150, Fin 65, Fin 110, Fin 140]
     = Inr \<lparr>avg = Fin 111, min_bs = Fin 65, max_bs = Fin 150,
            normal_count = 2, low_count = 1, high_count = 2, total_readings = 5\<rparr>"
  by (simp add: summary_statistics_def mean_def get_state_Fin)

lemma january_summary:
  "get_monthly_summary_data (save_all fresh_store january_readings) 2025 1
     = Inr (Some \<lparr>avg = Fin 111, min_bs = Fin 65, max_bs = Fin 150,
                  normal_count = 2, low_count = 1, high_count = 2, total_readings = 5\<rparr>)"
  by (simp add: summary_by_month_values january_values january_statistics)

text \<open>
  Claim C3. The summary is computed from exactly the values of the loaded rows whose
  timestamp has the queried year and month: it is absent when there is none and the
  statistics of those values otherwise. For the readings of January 2025 with the values
  90, 150, 65, 110 and 140, one reading of February 2025 and one of December 2024, the
  summary of (2025, 1) has 5 readings, mean 111, minimum 65, maximum 150, 2 normal, 1 low
  and 2 high readings.
\<close>

theorem summary_of_queried_month:
  "get_monthly_summary_data s y m =
     (if month_values y m (fst (load_data s)) = [] then Inr None
      else map_sum id Some (summary_statistics (month_values y m (fst (load_data s)))))
   \<and> get_monthly_summary_data (save_all fresh_store january_readings) 2025 1
       = Inr (Some \<lparr>avg = Fin 111, min_bs = Fin 65, max_bs = Fin 150,
                    normal_count = 2, low_count = 1, high_count = 2, total_readings = 5\<rparr>)"
  using summary_by_month_values january_summary by simp

theorem summary_of_queried_month_witness:
  "get_monthly_summary_data (save_all fresh_store january_readings) 2025 2
     = Inr (Some \<lparr>avg = Fin 120, min_bs = Fin 120, max_bs = Fin 120,
                  normal_count = 1, low_count = 0, high_count = 0, total_readings = 1\<rparr>)"
  using summary_of_queried_month [of "save_all fresh_store january_readings" 2025 2]
  by (simp add: february_values summary_statistics_def mean_def get_state_Fin)

text \<open>
  Claim C5. Whenever \<open>get_monthly_summary_data\<close> returns a summary, its three counts add
  up to its total, and the total is the number of readings of the queried month.
\<close>

theorem summary_counts_add_up:
  assumes "get_monthly_summary_data s y m = Inr (Some sm)"
  shows "normal_count sm + low_count sm + high_count sm = total_readings sm
       \<and> total_readings sm = length (month_values y m (fst (load_data s)))"
proof -
  let ?vs = "month_values y m (fst (load_data s))"
  from assms have ne: "?vs \<noteq> []" and sm: "map_sum id Some (summary_statistics ?vs) = Inr (Some sm)"
    by (simp_all add: summary_by_month_values split: if_splits)
  from summary_statistics_nonempty [OF ne] obtain sm' where
    "summary_statistics ?vs = Inr sm'"
    "normal_count sm' + low_count sm' + high_count sm' = total_readings sm'"
    "total_readings sm' = length ?vs"
    by blast
  with sm show ?thesis by simp
qed

theorem summary_counts_add_up_witness:
  "(2::nat) + 1 + 2 = 5
   \<and> length (month_values 2025 1 (fst (load_data (save_all fresh_store january_readings)))) = 5"
  using summary_counts_add_up [OF january_summary] by simp

text \<open>
  Claim C6. \<open>get_monthly_summary_data\<close> returns \<open>None\<close> exactly when no loaded row has
  a timestamp of the queried year and month, and it never raises.
\<close>

theorem summary_absent_iff_no_reading:
  "(get_monthly_summary_data s y m = Inr None
      \<longleftrightarrow> month_values y m (fst (load_data s)) = [])
   \<and> (\<forall>e. get_monthly_summary_data s y m \<noteq> Inl e)"
proof (cases "month_values y m (fst (load_data s)) = []")
  case True
  then show ?thesis by (simp add: summary_by_month_values)
next
  case False
  from summary_statistics_nonempty [OF this] obtain sm where
    "summary_statistics (month_values y m (fst (load_data s))) = Inr sm" by blast
  with False show ?thesis by (simp add: summary_by_month_values)
qed

theorem summary_absent_iff_no_reading_witness:
  "get_monthly_summary_data (save_all fresh_store january_readings) 2025 3 = Inr None
   \<and> get_monthly_summary_data (save_all fresh_store january_readings) 2025 1 \<noteq> Inr None"
  using summary_absent_iff_no_reading [of "save_all fresh_store january_readings" 2025 3]
        summary_absent_iff_no_reading [of "save_all fresh_store january_readings" 2025 1]
  by (simp add: march_values january_values)


section \<open>The summary does not read the stored labels\<close>











end
